theory Spec2Isabelle
  imports Complex_Main "HOL-Library.AList"
begin

section \<open>Errors and tensors\<close>

text \<open>
  The notebooks are Python scripts over PyTorch tensors. An exception raised by Python or
  by a library call is a value of type \<open>error\<close>; an operation that can raise returns
  \<open>error + 'a\<close> with \<open>Inl\<close> for the exception.
\<close>

datatype error =
    ZeroDivisionError | RuntimeError | AttributeError | FileNotFoundError
  | LibraryError string

text \<open>
  A one-dimensional tensor is the list of its elements. A two-dimensional tensor is its shape
  together with its elements in row-major (contiguous) order, so that element \<open>(i, j)\<close> is
  stored at position \<open>i * ncols + j\<close>.
\<close>

record 'a tensor2 =
  nrows :: nat
  ncols :: nat
  cells :: "'a list"

definition entry :: "'a tensor2 \<Rightarrow> nat \<Rightarrow> nat \<Rightarrow> 'a" where
  "entry T i j = cells T ! (i * ncols T + j)"

definition wf_tensor2 :: "'a tensor2 \<Rightarrow> bool" where
  "wf_tensor2 T = (length (cells T) = nrows T * ncols T)"

section \<open>Batching the corpus: \<open>batchify\<close>\<close>

text \<open>
  \<^verbatim>\<open>
  def batchify(data, bsz):
      nbatch = data.size(0) // bsz
      data = data.narrow(0, 0, nbatch * bsz)
      data = data.view(bsz, -1).t().contiguous()
      return data.to(device)
  \<close>
  \<open>narrow0 data start len\<close> is \<open>data.narrow(0, start, len)\<close>, which raises when the
  window leaves the tensor. \<open>view_rows data r\<close> is \<open>data.view(r, -1)\<close>: the missing
  dimension is inferred as \<open>numel / r\<close>, which raises when \<open>r\<close> is zero or does not divide
  the number of elements. \<open>t_contiguous\<close> is \<open>.t().contiguous()\<close>: the transposed tensor
  laid out again in row-major order. The move to the device does not change the values.
  Python's \<open>//\<close> raises on a zero divisor.
\<close>

definition narrow0 :: "'a list \<Rightarrow> nat \<Rightarrow> nat \<Rightarrow> error + 'a list" where
  "narrow0 data start len =
     (if start + len \<le> length data then Inr (take len (drop start data)) else Inl RuntimeError)"

definition view_rows :: "'a list \<Rightarrow> nat \<Rightarrow> error + 'a tensor2" where
  "view_rows data r =
     (if r = 0 then Inl RuntimeError
      else if length data mod r \<noteq> 0 then Inl RuntimeError
      else Inr \<lparr>nrows = r, ncols = length data div r, cells = data\<rparr>)"

definition t_contiguous :: "'a tensor2 \<Rightarrow> 'a tensor2" where
  "t_contiguous T =
     \<lparr>nrows = ncols T, ncols = nrows T,
      cells = concat (map (\<lambda>i. map (\<lambda>j. entry T j i) [0..<nrows T]) [0..<ncols T])\<rparr>"

definition batchify :: "'a list \<Rightarrow> nat \<Rightarrow> error + 'a tensor2" where
  "batchify data bsz =
     (if bsz = 0 then Inl ZeroDivisionError
      else
        let nbatch = length data div bsz in
        case narrow0 data 0 (nbatch * bsz) of
          Inl e \<Rightarrow> Inl e
        | Inr data1 \<Rightarrow>
            (case view_rows data1 bsz of
               Inl e \<Rightarrow> Inl e
             | Inr data2 \<Rightarrow> Inr (t_contiguous data2)))"

section \<open>Cutting evaluation batches: \<open>get_batch\<close>\<close>

text \<open>
  \<^verbatim>\<open>
  sequence_len = 35
  def get_batch(source, i):
      seq_len = min(sequence_len, len(source) - 1 - i)
      data = source[i:i+seq_len]
      target = source[i+1:i+1+seq_len].view(-1)
      return data, target
  \<close>
  A Python slice never raises: a negative bound counts from the end and every bound is
  clamped to the length (\<open>slice_bound\<close>). \<open>slice_rows T a b\<close> is \<open>T[a:b]\<close> on the rows
  of a contiguous tensor, and \<open>.view(-1)\<close> of such a slice is its storage.
\<close>

definition sequence_len :: int where
  "sequence_len = 35"

definition slice_bound :: "nat \<Rightarrow> int \<Rightarrow> nat" where
  "slice_bound n k = (if k < 0 then nat (max (k + int n) 0) else nat (min k (int n)))"

definition slice_rows :: "'a tensor2 \<Rightarrow> int \<Rightarrow> int \<Rightarrow> 'a tensor2" where
  "slice_rows T a b =
     (let lo = slice_bound (nrows T) a; hi = slice_bound (nrows T) b
      in \<lparr>nrows = hi - lo, ncols = ncols T,
          cells = take ((hi - lo) * ncols T) (drop (lo * ncols T) (cells T))\<rparr>)"

definition get_batch :: "'a tensor2 \<Rightarrow> int \<Rightarrow> 'a tensor2 \<times> 'a list" where
  "get_batch source i =
     (let seq_len = min sequence_len (int (nrows source) - 1 - i);
          data = slice_rows source i (i + seq_len);
          target = cells (slice_rows source (i + 1) (i + 1 + seq_len))
      in (data, target))"

section \<open>Evaluation: \<open>evaluate\<close> and the perplexity report\<close>

text \<open>
  \<^verbatim>\<open>
  criterion = nn.CrossEntropyLoss()
  def repackage_hidden(h):
      if isinstance(h, torch.Tensor): return h.detach()
      else: return tuple(repackage_hidden(v) for v in h)

  def evaluate(model, data_source):
      model.eval()
      total_loss = 0.
      ntokens = len(corpus.dictionary)
      hidden = model.init_hidden(eval_batch_size)
      with torch.no_grad():
          for i in tqdm(range(0, data_source.size(0), sequence_len)):
              data, targets = get_batch(data_source, i)
              output, hidden = model(data, hidden)
              output_flat = output.view(-1, ntokens)
              total_loss += len(data) * criterion(output_flat, targets).item()
              hidden = repackage_hidden(hidden)
      return total_loss / len(data_source)
  \<close>
  The model and the loss come from PyTorch and are parameters of the embedding, collected in
  the record \<open>torch_model\<close>: \<open>forward model data hidden w\<close> is the call
  \<open>model(data, hidden)\<close>, which may raise, returns the output and the next hidden state and
  may change the state \<open>w\<close> of the library (registered hooks and collectors observe every
  forward pass); \<open>criterion model output ntokens targets\<close> is
  \<open>criterion(output.view(-1, ntokens), targets).item()\<close>; \<open>set_eval\<close> is \<open>model.eval()\<close>;
  \<open>of_len\<close> is the conversion of a length to a float and \<open>np_exp\<close> is \<open>np.exp\<close>.

  Losses are floats. Their type \<open>'r\<close> is only required to have \<open>0\<close>, \<open>+\<close>, \<open>*\<close> and
  \<open>/\<close>; no law of arithmetic is assumed about them, so everything proved below holds for
  IEEE floating point as well as for the reals, and sums are taken in the order of the loop.
  Detaching a hidden state from its history does not change its value. A float divided by
  the integer zero raises \<open>ZeroDivisionError\<close>.
\<close>

record ('a, 'h, 'o, 'r, 'w) torch_model =
  set_eval :: "'w \<Rightarrow> 'w"
  init_hidden :: "nat \<Rightarrow> 'h"
  forward :: "'a tensor2 \<Rightarrow> 'h \<Rightarrow> 'w \<Rightarrow> error + ('o \<times> 'h) \<times> 'w"
  criterion :: "'o \<Rightarrow> nat \<Rightarrow> 'a list \<Rightarrow> error + 'r"
  of_len :: "nat \<Rightarrow> 'r"
  np_exp :: "'r \<Rightarrow> 'r"

definition eval_batch_size :: nat where
  "eval_batch_size = 10"

definition repackage_hidden :: "'h \<Rightarrow> 'h" where
  "repackage_hidden h = h"

text \<open>\<open>range_from0 stop step\<close> is \<open>range(0, stop, step)\<close> for a positive step.\<close>

definition range_from0 :: "nat \<Rightarrow> int \<Rightarrow> int list" where
  "range_from0 stop step =
     map (\<lambda>k. int k * step) [0..<nat ((int stop + step - 1) div step)]"

fun evaluate_loop ::
  "('a, 'h, 'o, 'r::{plus,times}, 'w) torch_model \<Rightarrow> nat \<Rightarrow> 'a tensor2 \<Rightarrow> int list
     \<Rightarrow> 'r \<Rightarrow> 'h \<Rightarrow> 'w \<Rightarrow> error + 'r \<times> 'h \<times> 'w" where
  "evaluate_loop model ntokens data_source [] total_loss hidden w = Inr (total_loss, hidden, w)"
| "evaluate_loop model ntokens data_source (i # rest) total_loss hidden w =
     (case get_batch data_source i of
        (data, targets) \<Rightarrow>
          (case forward model data hidden w of
             Inl e \<Rightarrow> Inl e
           | Inr ((output, hidden'), w') \<Rightarrow>
               (case criterion model output ntokens targets of
                  Inl e \<Rightarrow> Inl e
                | Inr loss \<Rightarrow>
                    evaluate_loop model ntokens data_source rest
                      (total_loss + of_len model (nrows data) * loss)
                      (repackage_hidden hidden') w')))"

definition evaluate ::
  "('a, 'h, 'o, 'r::{zero,plus,times,inverse}, 'w) torch_model \<Rightarrow> nat \<Rightarrow> 'a tensor2 \<Rightarrow> 'w
     \<Rightarrow> error + 'r \<times> 'w" where
  "evaluate model ntokens data_source w =
     (case evaluate_loop model ntokens data_source
             (range_from0 (nrows data_source) sequence_len)
             0 (init_hidden model eval_batch_size) (set_eval model w) of
        Inl e \<Rightarrow> Inl e
      | Inr (total_loss, hidden, w') \<Rightarrow>
          if nrows data_source = 0 then Inl ZeroDivisionError
          else Inr (total_loss / of_len model (nrows data_source), w'))"















text \<open>
  To count forward passes, \<open>counting model\<close> is the same model whose library state carries
  one more component, the number of calls of \<open>forward\<close> that returned.
\<close>

definition counting ::
  "('a, 'h, 'o, 'r, 'w) torch_model \<Rightarrow> ('a, 'h, 'o, 'r, 'w \<times> nat) torch_model" where
  "counting model =
     \<lparr>set_eval = (\<lambda>(w, calls). (set_eval model w, calls)),
      init_hidden = init_hidden model,
      forward = (\<lambda>data hidden (w, calls).
         case forward model data hidden w of
           Inl e \<Rightarrow> Inl e
         | Inr (r, w') \<Rightarrow> Inr (r, (w', Suc calls))),
      criterion = criterion model,
      of_len = of_len model,
      np_exp = np_exp model\<rparr>"

section \<open>Capturing feature maps with forward hooks\<close>

text \<open>
  \<^verbatim>\<open>
  intermediary_results = {}
  cb_handles = []

  def save_conv_output(m, i, o):
      intermediary_results[m.distiller_name] = o.data.cpu().numpy()

  def register_forward_hook(m):
      if hasattr(m, 'distiller_name'):
          h = m.register_forward_hook(save_conv_output)
          cb_handles.append(h)

  distiller.utils.assign_layer_fq_names(resnet50_sparse)
  resnet50_sparse.apply(register_forward_hook)
  predictions = resnet50_sparse(sample.cuda())
  for h in cb_handles:
      h.remove()
  print(len(intermediary_results))
  \<close>
  A network is given by the list \<open>modules\<close> of its modules in the order in which
  \<open>Module.apply\<close> visits them, the attribute \<open>distiller_name\<close> of each module
  (\<open>None\<close> when the module has no such attribute) and \<open>run\<close>, the forward computation:
  the calls of modules that completed, in order, each with its output, and the outcome of
  the whole pass. PyTorch keeps the registered hooks per module under fresh handle
  identifiers; \<open>forward_hooks\<close> is the table of all of them, \<open>next_id\<close> the next
  identifier. \<open>save_conv_output\<close> is the only hook the notebook registers. The dictionary
  \<open>intermediary_results\<close> is an association list with one entry per key.
  \<open>to_numpy\<close> stands for \<open>o.data.cpu().numpy()\<close>, and \<open>assign_layer_fq_names\<close>
  for the library function of that name; both are parameters.
\<close>

type_synonym module_id = nat
type_synonym handle = nat

record ('s, 't) network =
  modules :: "module_id list"
  distiller_name :: "module_id \<Rightarrow> string option"
  run :: "'s \<Rightarrow> (module_id \<times> 't) list \<times> (error + 't)"

record 'v capture_state =
  intermediary_results :: "(string \<times> 'v) list"
  cb_handles :: "handle list"
  forward_hooks :: "(handle \<times> module_id) list"
  next_id :: nat

definition save_conv_output ::
  "('s, 't) network \<Rightarrow> ('t \<Rightarrow> error + 'v) \<Rightarrow> module_id \<Rightarrow> 't
     \<Rightarrow> (string \<times> 'v) list \<Rightarrow> error + (string \<times> 'v) list" where
  "save_conv_output net to_numpy m out results =
     (case to_numpy out of
        Inl e \<Rightarrow> Inl e
      | Inr v \<Rightarrow>
          (case distiller_name net m of
             None \<Rightarrow> Inl AttributeError
           | Some name \<Rightarrow> Inr (AList.update name v results)))"

definition register_forward_hook ::
  "('s, 't) network \<Rightarrow> module_id \<Rightarrow> 'v capture_state \<Rightarrow> 'v capture_state" where
  "register_forward_hook net m st =
     (if distiller_name net m \<noteq> None then
        let h = next_id st in
        st\<lparr>forward_hooks := forward_hooks st @ [(h, m)],
           next_id := Suc h,
           cb_handles := cb_handles st @ [h]\<rparr>
      else st)"

text \<open>\<open>remove h\<close> is \<open>h.remove()\<close>: the hook stored under the handle is deleted.\<close>

definition remove :: "handle \<Rightarrow> 'v capture_state \<Rightarrow> 'v capture_state" where
  "remove h st = st\<lparr>forward_hooks := filter (\<lambda>(h', m). h' \<noteq> h) (forward_hooks st)\<rparr>"

text \<open>
  Calling a module runs, after its own computation, every hook registered on it
  (\<open>run_hooks\<close>); \<open>forward_pass\<close> does so for each call of the pass, and
  \<open>call_model\<close> is \<open>resnet50_sparse(sample.cuda())\<close>.
\<close>

fun run_hooks ::
  "('s, 't) network \<Rightarrow> ('t \<Rightarrow> error + 'v) \<Rightarrow> (handle \<times> module_id) list \<Rightarrow> module_id \<Rightarrow> 't
     \<Rightarrow> (string \<times> 'v) list \<Rightarrow> error + (string \<times> 'v) list" where
  "run_hooks net to_numpy [] m out results = Inr results"
| "run_hooks net to_numpy ((h, m') # hooks) m out results =
     (if m' = m then
        (case save_conv_output net to_numpy m out results of
           Inl e \<Rightarrow> Inl e
         | Inr results' \<Rightarrow> run_hooks net to_numpy hooks m out results')
      else run_hooks net to_numpy hooks m out results)"

fun forward_pass ::
  "('s, 't) network \<Rightarrow> ('t \<Rightarrow> error + 'v) \<Rightarrow> (handle \<times> module_id) list
     \<Rightarrow> (module_id \<times> 't) list \<Rightarrow> (string \<times> 'v) list \<Rightarrow> error + (string \<times> 'v) list" where
  "forward_pass net to_numpy hooks [] results = Inr results"
| "forward_pass net to_numpy hooks ((m, out) # calls) results =
     (case run_hooks net to_numpy hooks m out results of
        Inl e \<Rightarrow> Inl e
      | Inr results' \<Rightarrow> forward_pass net to_numpy hooks calls results')"

definition call_model ::
  "('s, 't) network \<Rightarrow> ('t \<Rightarrow> error + 'v) \<Rightarrow> 's \<Rightarrow> 'v capture_state
     \<Rightarrow> error + 't \<times> 'v capture_state" where
  "call_model net to_numpy sample st =
     (case run net sample of
        (calls, outcome) \<Rightarrow>
          (case forward_pass net to_numpy (forward_hooks st) calls (intermediary_results st) of
             Inl e \<Rightarrow> Inl e
           | Inr results \<Rightarrow>
               (case outcome of
                  Inl e \<Rightarrow> Inl e
                | Inr predictions \<Rightarrow> Inr (predictions, st\<lparr>intermediary_results := results\<rparr>))))"

text \<open>The capture cell returns the state it leaves and the number it prints.\<close>

definition capture_cell ::
  "(('s, 't) network \<Rightarrow> ('s, 't) network) \<Rightarrow> ('t \<Rightarrow> error + 'v) \<Rightarrow> ('s, 't) network \<Rightarrow> 's
     \<Rightarrow> 'v capture_state \<Rightarrow> error + 'v capture_state \<times> nat" where
  "capture_cell assign_layer_fq_names to_numpy resnet50_sparse sample st =
     (let st1 = st\<lparr>intermediary_results := [], cb_handles := []\<rparr>;
          net = assign_layer_fq_names resnet50_sparse;
          st2 = fold (register_forward_hook net) (modules net) st1
      in case call_model net to_numpy sample st2 of
           Inl e \<Rightarrow> Inl e
         | Inr (predictions, st3) \<Rightarrow>
             (let st4 = fold remove (cb_handles st3) st3
              in Inr (st4, length (intermediary_results st4))))"

text \<open>
  \<open>before_pass\<close> is the state in which the capture cell calls the model: the dictionary
  and the handle list are empty and the hooks of the cell are registered.
\<close>

definition before_pass ::
  "(('s, 't) network \<Rightarrow> ('s, 't) network) \<Rightarrow> ('s, 't) network \<Rightarrow> 'v capture_state
     \<Rightarrow> 'v capture_state" where
  "before_pass assign_layer_fq_names resnet50_sparse st =
     fold (register_forward_hook (assign_layer_fq_names resnet50_sparse))
       (modules (assign_layer_fq_names resnet50_sparse))
       (st\<lparr>intermediary_results := [], cb_handles := []\<rparr>)"

text \<open>
  The names under which the hooks of a pass store their results: one for each completed
  call of a module that carries a hook.
\<close>

definition hooked_names ::
  "('s, 't) network \<Rightarrow> (handle \<times> module_id) list \<Rightarrow> (module_id \<times> 't) list \<Rightarrow> string list" where
  "hooked_names net hooks calls =
     concat (map (\<lambda>(m, out).
        if m \<in> snd ` set hooks
        then (case distiller_name net m of None \<Rightarrow> [] | Some name \<Rightarrow> [name])
        else []) calls)"

section \<open>Saving and loading the feature maps\<close>

text \<open>
  \<^verbatim>\<open>
  with open('resnet50_sparse_fms.pickle', 'wb') as f:
      pickle.dump(intermediary_results, f)

  with open('resnet50_sparse_fms.pickle', 'rb') as f:
      intermediary_results_from_file = pickle.load(f)
  \<close>
  The file system maps a path to the contents of the file. The serialiser of the standard
  library is a parameter: \<open>dumps\<close> produces the contents written, \<open>loads\<close> reads
  contents back and may raise.
\<close>

record ('v, 'b) pickle =
  dumps :: "(string \<times> 'v) list \<Rightarrow> 'b"
  loads :: "'b \<Rightarrow> error + (string \<times> 'v) list"

definition fms_file :: string where
  "fms_file = ''resnet50_sparse_fms.pickle''"

definition dump_cell ::
  "('v, 'b) pickle \<Rightarrow> (string \<times> 'v) list \<Rightarrow> (string \<rightharpoonup> 'b) \<Rightarrow> (string \<rightharpoonup> 'b)" where
  "dump_cell pickle results files = files(fms_file \<mapsto> dumps pickle results)"

definition load_cell ::
  "('v, 'b) pickle \<Rightarrow> (string \<rightharpoonup> 'b) \<Rightarrow> error + (string \<times> 'v) list" where
  "load_cell pickle files =
     (case files fms_file of
        None \<Rightarrow> Inl FileNotFoundError
      | Some f \<Rightarrow> loads pickle f)"

section \<open>The notebooks as sequences of calls\<close>

text \<open>
  Each notebook is a list of code cells, and each cell the list of the calls it makes, in
  program order. \<open>Evaluate\<close> and \<open>Print_ppl\<close> record which model is evaluated or
  reported: the converted floating-point model, a quantized model or the half-precision
  model. In \<open>quantize_lstm\<close> the statistics are collected only when the statistics file
  does not exist yet. Imports, definitions of functions, moves to the device, the test for
  the statistics file and the display of a value at the end of a cell are not listed.
  The first and the last cell of each notebook make no call.
\<close>

datatype evaluated = Float_model | Quantized_model | Half_model

datatype call =
    Corpus | Batchify | Torch_load | Manual_model | Torch_save | Init_hidden | Get_batch
  | Model_eval | Forward | Print_max_error | Cross_entropy_loss
  | Assign_layer_fq_names | Collector | Evaluate evaluated | Collector_save
  | Deepcopy | Quantizer | Prepare_model | Print_ppl evaluated | Half | Yaml_load
  | Create_model | Load_checkpoint | Make_non_parallel_copy | Image_open | Preprocess
  | Torch_max | Apply_register_forward_hook | Remove_handles | Pickle_dump | Pickle_load
  | Plot_histograms

definition quantize_lstm :: "bool \<Rightarrow> call list list" where
  "quantize_lstm stats_file_exists =
     [ [],
       [Corpus],
       [Batchify, Batchify, Batchify],
       [Torch_load],
       [Manual_model, Torch_save],
       [Init_hidden, Get_batch],
       [Model_eval, Model_eval, Forward, Forward, Print_max_error],
       [Cross_entropy_loss],
       [Torch_load, Assign_layer_fq_names, Collector]
         @ (if stats_file_exists then [] else [Evaluate Float_model, Collector_save]),
       [Torch_load, Evaluate Float_model, Print_ppl Float_model],
       [Deepcopy, Quantizer, Prepare_model],
       [],
       [Evaluate Quantized_model],
       [Print_ppl Quantized_model],
       [Deepcopy, Quantizer, Prepare_model],
       [Evaluate Quantized_model, Print_ppl Quantized_model],
       [Deepcopy, Half, Evaluate Half_model, Print_ppl Half_model],
       [Yaml_load, Deepcopy, Quantizer, Prepare_model, Evaluate Quantized_model,
        Print_ppl Quantized_model],
       [],
       [Yaml_load, Deepcopy, Quantizer, Prepare_model, Evaluate Quantized_model,
        Print_ppl Quantized_model],
       [Deepcopy, Quantizer, Prepare_model, Evaluate Quantized_model, Print_ppl Quantized_model],
       [] ]"











definition is_evaluate :: "call \<Rightarrow> bool" where
  "is_evaluate c = (case c of Evaluate m \<Rightarrow> True | _ \<Rightarrow> False)"

section \<open>Small concrete instances\<close>

text \<open>
  A model whose output is its hidden state, a counter of the calls, and whose loss is that
  output plus two; a model whose output is the sum of the data and whose loss is the sum of
  the targets minus that output; a model whose loss is always one; a model that raises in
  its second forward pass; a source of 37 rows and a source without rows.
\<close>

definition demo_model :: "(int, nat, nat, real, unit) torch_model" where
  "demo_model =
     \<lparr>set_eval = (\<lambda>w. w),
      init_hidden = (\<lambda>bsz. 0),
      forward = (\<lambda>data hidden w. Inr ((hidden, Suc hidden), w)),
      criterion = (\<lambda>out ntokens targets. Inr (real out + 2)),
      of_len = real,
      np_exp = exp\<rparr>"

definition demo_source :: "int tensor2" where
  "demo_source = \<lparr>nrows = 37, ncols = 1, cells = map int [0..<37]\<rparr>"





text \<open>
  A network of four modules, one of them without a name and one called twice; a network
  whose forward computation raises after its first module; a network whose outputs depend
  on the sample; a conversion to numpy that fails on one output; a state in which no cell
  has run yet; a serialiser that stores the dictionary as it is and one that cannot read.
\<close>

definition echo_net :: "(nat, nat) network" where
  "echo_net =
     \<lparr>modules = [1, 0],
      distiller_name = (\<lambda>m. if m = 0 then Some '''' else Some ''conv1''),
      run = (\<lambda>sample. ([(1, Suc sample), (0, sample)], Inr sample))\<rparr>"

definition fresh_state :: "nat capture_state" where
  "fresh_state = \<lparr>intermediary_results = [], cb_handles = [], forward_hooks = [], next_id = 5\<rparr>"




definition demo_net :: "(unit, nat) network" where
  "demo_net =
     \<lparr>modules = [1, 2, 3, 0],
      distiller_name = (\<lambda>m. if m = 0 then Some '''' else if m = 1 then Some ''conv1''
                         else if m = 2 then Some ''relu'' else None),
      run = (\<lambda>sample. ([(1, 10), (2, 20), (3, 30), (2, 40), (0, 50)], Inr 50))\<rparr>"

definition demo_state :: "nat capture_state" where
  "demo_state = \<lparr>intermediary_results = [(''stale'', 1)], cb_handles = [7],
                  forward_hooks = [], next_id = 5\<rparr>"

definition demo_pickle :: "(nat, (string \<times> nat) list) pickle" where
  "demo_pickle = \<lparr>dumps = (\<lambda>d. d), loads = Inr\<rparr>"

section \<open>Properties of \<open>batchify\<close>\<close>

lemma grid_index_less: "i < m \<Longrightarrow> j < n \<Longrightarrow> i * n + j < m * (n::nat)"
proof -
  assume a: "i < m" and b: "j < n"
  have "i * n + j < i * n + n" using b by simp
  also have "\<dots> = Suc i * n" by simp
  also have "\<dots> \<le> m * n" using a by (intro mult_le_mono1) simp
  finally show ?thesis .
qed

lemma concat_grid_length:
  "length (concat (map (\<lambda>i. map (f i) [0..<n]) [0..<m])) = m * n"
  by (induction m) simp_all

lemma concat_grid_nth:
  "i < m \<Longrightarrow> j < n \<Longrightarrow> concat (map (\<lambda>i. map (f i) [0..<n]) [0..<m]) ! (i * n + j) = f i j"
proof (induction m)
  case 0
  then show ?case by simp
next
  case (Suc m)
  show ?case
  proof (cases "i < m")
    case True
    then have "i * n + j < m * n"
      using Suc.prems(2) by (rule grid_index_less)
    then show ?thesis using Suc True by (simp add: nth_append concat_grid_length)
  next
    case False
    then have "i = m" using Suc.prems(1) by simp
    then show ?thesis using Suc.prems(2) by (simp add: nth_append concat_grid_length)
  qed
qed

lemma batchify_Inr:
  "0 < bsz \<Longrightarrow> batchify data bsz =
     Inr (t_contiguous \<lparr>nrows = bsz, ncols = length data div bsz,
                        cells = take (length data div bsz * bsz) data\<rparr>)"
  by (simp add: batchify_def narrow0_def view_rows_def Let_def min_absorb2)

lemma t_contiguous_entry:
  "i < ncols T \<Longrightarrow> j < nrows T \<Longrightarrow> entry (t_contiguous T) i j = entry T j i"
  by (simp add: t_contiguous_def entry_def concat_grid_nth)

text \<open>
  Claim C8. For every one-dimensional tensor and every batch size \<open>bsz \<ge> 1\<close>,
  \<open>batchify\<close> returns a tensor with \<open>length data div bsz\<close> rows and \<open>bsz\<close> columns
  whose element at row \<open>i\<close>, column \<open>j\<close> is \<open>data ! (j * (length data div bsz) + i)\<close>.
  The trailing \<open>length data mod bsz\<close> elements are dropped: whatever stands in their
  place, the result is the same.
\<close>

theorem batchify_layout:
  assumes "1 \<le> bsz"
  shows "\<exists>r. batchify data bsz = Inr r
           \<and> nrows r = length data div bsz \<and> ncols r = bsz
           \<and> length (cells r) = (length data div bsz) * bsz
           \<and> (\<forall>i j. i < length data div bsz \<and> j < bsz \<longrightarrow>
                  entry r i j = data ! (j * (length data div bsz) + i))
           \<and> (\<forall>extra. length extra < bsz \<longrightarrow>
                  batchify (take (length data div bsz * bsz) data @ extra) bsz = Inr r)"
proof -
  define nbatch where "nbatch = length data div bsz"
  define v where "v = \<lparr>nrows = bsz, ncols = nbatch, cells = take (nbatch * bsz) data\<rparr>"
  have pos: "0 < bsz" using assms by simp
  have le: "nbatch * bsz \<le> length data" unfolding nbatch_def by simp
  have r: "batchify data bsz = Inr (t_contiguous v)"
    using batchify_Inr [OF pos, of data] by (simp add: v_def nbatch_def)
  have shape: "nrows (t_contiguous v) = nbatch" "ncols (t_contiguous v) = bsz"
    by (simp_all add: t_contiguous_def v_def)
  have len: "length (cells (t_contiguous v)) = nbatch * bsz"
    by (simp add: t_contiguous_def v_def concat_grid_length)
  have elems: "entry (t_contiguous v) i j = data ! (j * nbatch + i)" if "i < nbatch" "j < bsz" for i j
  proof -
    have lt: "j * nbatch + i < nbatch * bsz"
      using grid_index_less [OF that(2) that(1)] by (simp add: mult.commute)
    have "entry (t_contiguous v) i j = entry v j i"
      using that by (simp add: t_contiguous_entry v_def)
    also have "\<dots> = take (nbatch * bsz) data ! (j * nbatch + i)"
      by (simp add: entry_def v_def)
    also have "\<dots> = data ! (j * nbatch + i)" using lt by simp
    finally show ?thesis .
  qed
  have frame: "batchify (take (nbatch * bsz) data @ extra) bsz = Inr (t_contiguous v)"
    if "length extra < bsz" for extra
  proof -
    have l: "length (take (nbatch * bsz) data @ extra) = nbatch * bsz + length extra"
      using le by simp
    have d: "(nbatch * bsz + length extra) div bsz = nbatch"
      using that pos by simp
    show ?thesis
      using batchify_Inr [OF pos, of "take (nbatch * bsz) data @ extra"]
      by (simp only: l d) (simp add: v_def le)
  qed
  show ?thesis
    using r shape len elems frame unfolding nbatch_def [symmetric] by blast
qed

theorem batchify_layout_witness:
  "(1::nat) \<le> 3 \<and> batchify [0, 1, 2, 3, 4, 5, 6, 7, 8, 9, 10 :: nat] 3
      = Inr \<lparr>nrows = 3, ncols = 3, cells = [0, 3, 6, 1, 4, 7, 2, 5, 8]\<rparr>
    \<and> batchify [0, 1, 2, 3, 4, 5, 6, 7, 8, 42 :: nat] 3
      = Inr \<lparr>nrows = 3, ncols = 3, cells = [0, 3, 6, 1, 4, 7, 2, 5, 8]\<rparr>"
proof -
  have h: "(1::nat) \<le> 3" by simp
  obtain r where r: "batchify [0, 1, 2, 3, 4, 5, 6, 7, 8, 9, 10 :: nat] 3 = Inr r"
    using batchify_layout [OF h, of "[0, 1, 2, 3, 4, 5, 6, 7, 8, 9, 10 :: nat]"] by blast
  have "batchify [0, 1, 2, 3, 4, 5, 6, 7, 8, 9, 10 :: nat] 3
      = Inr \<lparr>nrows = 3, ncols = 3, cells = [0, 3, 6, 1, 4, 7, 2, 5, 8]\<rparr>"
    by code_simp
  moreover have "batchify [0, 1, 2, 3, 4, 5, 6, 7, 8, 42 :: nat] 3
      = Inr \<lparr>nrows = 3, ncols = 3, cells = [0, 3, 6, 1, 4, 7, 2, 5, 8]\<rparr>"
    by code_simp
  ultimately show ?thesis using h r by simp
qed

section \<open>Properties of \<open>get_batch\<close>\<close>

lemma slice_rows_inside:
  assumes "wf_tensor2 T" "a \<le> b" "b \<le> nrows T"
  shows "slice_rows T (int a) (int b) =
           \<lparr>nrows = b - a, ncols = ncols T,
            cells = take ((b - a) * ncols T) (drop (a * ncols T) (cells T))\<rparr>"
  using assms by (simp add: slice_rows_def slice_bound_def Let_def min_def)

lemma slice_rows_at:
  assumes "wf_tensor2 T" "a \<le> b" "b \<le> nrows T" "k < b - a" "j < ncols T"
  shows "cells (slice_rows T (int a) (int b)) ! (k * ncols T + j) = entry T (a + k) j"
proof -
  have lt: "k * ncols T + j < (b - a) * ncols T"
    using assms(4,5) by (rule grid_index_less)
  have "(a + k) * ncols T + j < nrows T * ncols T"
    using assms by (intro grid_index_less) simp_all
  then have "a * ncols T + (k * ncols T + j) \<le> length (cells T)"
    using assms(1) by (simp add: wf_tensor2_def add_mult_distrib)
  then show ?thesis
    using lt by (simp add: slice_rows_inside [OF assms(1-3)] entry_def add_mult_distrib add.assoc)
qed

lemma slice_rows_length:
  assumes "wf_tensor2 T" "a \<le> b" "b \<le> nrows T"
  shows "length (cells (slice_rows T (int a) (int b))) = (b - a) * ncols T"
proof -
  have "b - a \<le> nrows T - a" using assms(3) by simp
  then have "(b - a) * ncols T \<le> (nrows T - a) * ncols T" by (rule mult_le_mono1)
  then have "(b - a) * ncols T \<le> length (cells T) - a * ncols T"
    using assms(1) by (simp only: wf_tensor2_def diff_mult_distrib)
  then show ?thesis by (simp add: slice_rows_inside [OF assms])
qed

text \<open>
  Claim C9. For a source with at least two rows and an index \<open>0 \<le> i \<le> len(source) - 2\<close>,
  \<open>get_batch\<close> stays inside the source: \<open>seq_len = min 35 (len(source) - 1 - i)\<close> is at
  least one and \<open>i + 1 + seq_len\<close> does not exceed the number of rows; the data are the rows
  \<open>i, \<dots>, i + seq_len - 1\<close>, the target is the rows \<open>i + 1, \<dots>, i + seq_len\<close>
  flattened, both cover \<open>seq_len\<close> rows, and the target is the data shifted by one row.
\<close>

theorem get_batch_in_range:
  assumes wf: "wf_tensor2 source"
    and n2: "2 \<le> nrows source"
    and i0: "0 \<le> i"
    and iN: "i \<le> int (nrows source) - 2"
  shows "let seq_len = min 35 (int (nrows source) - 1 - i);
             data = fst (get_batch source i);
             target = snd (get_batch source i)
         in 1 \<le> seq_len
          \<and> i + 1 + seq_len \<le> int (nrows source)
          \<and> int (nrows data) = seq_len \<and> ncols data = ncols source
          \<and> wf_tensor2 data
          \<and> int (length target) = seq_len * int (ncols source)
          \<and> (\<forall>k j. int k < seq_len \<and> j < ncols source \<longrightarrow>
                 entry data k j = entry source (nat i + k) j
               \<and> target ! (k * ncols source + j) = entry source (nat i + 1 + k) j)
          \<and> (\<forall>k j. int k + 1 < seq_len \<and> j < ncols source \<longrightarrow>
                 target ! (k * ncols source + j) = entry data (k + 1) j)"
proof -
  define s where "s = nat (min 35 (int (nrows source) - 1 - i))"
  define a where "a = nat i"
  have s_int: "min 35 (int (nrows source) - 1 - i) = int s"
    using iN by (simp add: s_def)
  have i_int: "i = int a" using i0 by (simp add: a_def)
  have s_int': "min 35 (int (nrows source) - 1 - int a) = int s"
    using s_int i_int by simp
  have s1: "1 \<le> s" using iN by (simp add: s_def)
  have bound: "a + 1 + s \<le> nrows source"
    using iN i0 unfolding s_def a_def min_def by (simp split: if_splits) linarith
  define D where "D = slice_rows source (int a) (int (a + s))"
  define U where "U = slice_rows source (int (a + 1)) (int (a + 1 + s))"
  have d_eq: "fst (get_batch source i) = D"
    by (simp add: get_batch_def Let_def sequence_len_def i_int s_int' D_def)
  have t_eq: "snd (get_batch source i) = cells U"
    by (simp add: get_batch_def Let_def sequence_len_def i_int s_int' U_def
        add.commute add.left_commute)
  have le1: "a \<le> a + s" "a + s \<le> nrows source" using bound by simp_all
  have le2: "a + 1 \<le> a + 1 + s" "a + 1 + s \<le> nrows source" using bound by simp_all
  have d_shape: "nrows D = s" "ncols D = ncols source"
    unfolding D_def slice_rows_inside [OF wf le1] by simp_all
  have d_len: "length (cells D) = s * ncols source"
    unfolding D_def using slice_rows_length [OF wf le1] by simp
  have d_wf: "wf_tensor2 D"
    by (simp add: wf_tensor2_def d_len d_shape)
  have t_len: "length (cells U) = s * ncols source"
    unfolding U_def using slice_rows_length [OF wf le2] by simp
  have d_at: "entry D k j = entry source (a + k) j"
    if "k < s" "j < ncols source" for k j
  proof -
    have "entry D k j = cells D ! (k * ncols source + j)"
      by (simp add: entry_def d_shape)
    also have "\<dots> = entry source (a + k) j"
      unfolding D_def using slice_rows_at [OF wf le1, of k j] that by simp
    finally show ?thesis .
  qed
  have t_at: "cells U ! (k * ncols source + j) = entry source (a + 1 + k) j"
    if "k < s" "j < ncols source" for k j
    unfolding U_def using slice_rows_at [OF wf le2, of k j] that by simp
  have shift: "cells U ! (k * ncols source + j) = entry D (k + 1) j"
    if "k + 1 < s" "j < ncols source" for k j
    using t_at [of k j] d_at [of "k + 1" j] that by simp
  have bound_int: "i + 1 + int s \<le> int (nrows source)"
    using bound i_int by linarith
  have len_int: "int (length (cells U)) = int s * int (ncols source)"
    using t_len by simp
  show ?thesis
    unfolding Let_def s_int d_eq t_eq a_def [symmetric]
    using s1 bound_int d_shape d_wf len_int d_at t_at shift
    by simp
qed

theorem get_batch_in_range_witness:
  "wf_tensor2 \<lparr>nrows = 3, ncols = 2, cells = [1, 2, 3, 4, 5, 6 :: nat]\<rparr>
   \<and> 2 \<le> nrows \<lparr>nrows = 3, ncols = 2, cells = [1, 2, 3, 4, 5, 6 :: nat]\<rparr>
   \<and> (0::int) \<le> 1
   \<and> 1 \<le> int (nrows \<lparr>nrows = 3, ncols = 2, cells = [1, 2, 3, 4, 5, 6 :: nat]\<rparr>) - 2
   \<and> get_batch \<lparr>nrows = 3, ncols = 2, cells = [1, 2, 3, 4, 5, 6 :: nat]\<rparr> 1
       = (\<lparr>nrows = 1, ncols = 2, cells = [3, 4]\<rparr>, [5, 6])
   \<and> get_batch \<lparr>nrows = 3, ncols = 2, cells = [1, 2, 3, 4, 5, 6 :: nat]\<rparr> 0
       = (\<lparr>nrows = 2, ncols = 2, cells = [1, 2, 3, 4]\<rparr>, [3, 4, 5, 6])"
proof -
  let ?T = "\<lparr>nrows = 3, ncols = 2, cells = [1, 2, 3, 4, 5, 6 :: nat]\<rparr>"
  have h1: "wf_tensor2 ?T" by (simp add: wf_tensor2_def)
  have h2: "2 \<le> nrows ?T" by simp
  have h3: "(0::int) \<le> 1" by simp
  have h4: "1 \<le> int (nrows ?T) - 2" by simp
  note inst = get_batch_in_range [OF h1 h2 h3 h4]
  have e1: "get_batch ?T 1 = (\<lparr>nrows = 1, ncols = 2, cells = [3, 4]\<rparr>, [5, 6])"
    by (simp add: get_batch_def slice_rows_def slice_bound_def sequence_len_def Let_def)
  have e0: "get_batch ?T 0 = (\<lparr>nrows = 2, ncols = 2, cells = [1, 2, 3, 4]\<rparr>, [3, 4, 5, 6])"
    by (simp add: get_batch_def slice_rows_def slice_bound_def sequence_len_def Let_def)
  show ?thesis using inst h1 h2 h3 h4 e1 e0 by simp
qed

section \<open>Properties of \<open>evaluate\<close>\<close>



















text \<open>
  With the model whose loss is its call counter plus two, the losses on the source of 37
  rows are 2 and 3, and the result is \<open>(35 * 2 + 1 * 3) / 37\<close>.
\<close>

lemma demo_eval: "evaluate demo_model 5 demo_source () = Inr (73 / 37, ())"
  by (simp add: evaluate_def demo_model_def demo_source_def range_from0_def sequence_len_def
      get_batch_def slice_rows_def slice_bound_def Let_def repackage_hidden_def eval_batch_size_def
      upt_conv_Cons)


lemma counting_fields:
  "forward (counting model) data hidden (w, calls) =
     (case forward model data hidden w of
        Inl e \<Rightarrow> Inl e
      | Inr (r, w') \<Rightarrow> Inr (r, (w', Suc calls)))"
  "criterion (counting model) = criterion model"
  "of_len (counting model) = of_len model"
  "np_exp (counting model) = np_exp model"
  "init_hidden (counting model) = init_hidden model"
  "set_eval (counting model) (w, calls) = (set_eval model w, calls)"
  by (simp_all add: counting_def)

lemma evaluate_loop_counting:
  "evaluate_loop (counting model) ntokens src idx total_loss hidden (w, calls) =
     (case evaluate_loop model ntokens src idx total_loss hidden w of
        Inl e \<Rightarrow> Inl e
      | Inr (t, h, w') \<Rightarrow> Inr (t, h, (w', calls + length idx)))"
proof (induction idx arbitrary: total_loss hidden w calls)
  case Nil
  then show ?case by simp
next
  case (Cons i idx)
  show ?case
    by (simp add: Cons.IH counting_fields split: sum.splits prod.splits)
qed

lemma length_range_from0:
  "length (range_from0 n sequence_len) = (n + 34) div 35"
proof -
  have "(int n + 35 - 1) div 35 = int ((n + 34) div 35)"
    by (simp add: zdiv_int)
  then show ?thesis
    by (simp add: range_from0_def sequence_len_def)
qed

lemma evaluate_counting:
  "evaluate (counting model) ntokens src (w, calls) =
     (case evaluate model ntokens src w of
        Inl e \<Rightarrow> Inl e
      | Inr (loss, w') \<Rightarrow>
          Inr (loss, (w', calls + length (range_from0 (nrows src) sequence_len))))"
  by (simp add: evaluate_def evaluate_loop_counting counting_fields split: sum.splits prod.splits)

lemma demo_range: "range_from0 (nrows demo_source) sequence_len = [0] @ 35 # []"
  by (simp add: range_from0_def demo_source_def sequence_len_def upt_conv_Cons)


section \<open>Properties of the capture cell\<close>

text \<open>
  Registration appends one hook with a fresh identifier for each named module; removal
  deletes exactly the hooks of the given handles; a pass without hooks leaves the
  dictionary alone.
\<close>

lemma register_fold:
  "fold (register_forward_hook net) ms st =
     (let named = filter (\<lambda>m. distiller_name net m \<noteq> None) ms;
          ids = [next_id st..<next_id st + length named]
      in st\<lparr>forward_hooks := forward_hooks st @ zip ids named,
            next_id := next_id st + length named,
            cb_handles := cb_handles st @ ids\<rparr>)"
proof (induction ms arbitrary: st)
  case Nil
  then show ?case by simp
next
  case (Cons m ms)
  define st1 where "st1 = register_forward_hook net m st"
  have "fold (register_forward_hook net) (m # ms) st = fold (register_forward_hook net) ms st1"
    by (simp add: st1_def)
  also have "\<dots> =
     (let named = filter (\<lambda>m. distiller_name net m \<noteq> None) ms;
          ids = [next_id st1..<next_id st1 + length named]
      in st1\<lparr>forward_hooks := forward_hooks st1 @ zip ids named,
            next_id := next_id st1 + length named,
            cb_handles := cb_handles st1 @ ids\<rparr>)"
    by (rule Cons.IH)
  also have "\<dots> =
     (let named = filter (\<lambda>m. distiller_name net m \<noteq> None) (m # ms);
          ids = [next_id st..<next_id st + length named]
      in st\<lparr>forward_hooks := forward_hooks st @ zip ids named,
            next_id := next_id st + length named,
            cb_handles := cb_handles st @ ids\<rparr>)"
    unfolding st1_def register_forward_hook_def
    by (simp add: Let_def upt_conv_Cons del: upt_Suc)
  finally show ?case .
qed

lemma remove_fold:
  "fold remove hs st =
     st\<lparr>forward_hooks := filter (\<lambda>(h, m). h \<notin> set hs) (forward_hooks st)\<rparr>"
proof (induction hs arbitrary: st)
  case Nil
  then show ?case by simp
next
  case (Cons h hs)
  have f: "filter (\<lambda>(h', m). h' \<notin> set hs) (filter (\<lambda>(h', m). h' \<noteq> h) xs)
        = filter (\<lambda>(h', m). h' \<notin> set (h # hs)) xs" for xs :: "(handle \<times> module_id) list"
    by (induction xs) auto
  have "fold remove (h # hs) st = fold remove hs (remove h st)" by simp
  also have "\<dots> = (remove h st)\<lparr>forward_hooks :=
      filter (\<lambda>(h', m). h' \<notin> set hs) (forward_hooks (remove h st))\<rparr>"
    by (rule Cons.IH)
  also have "\<dots> = st\<lparr>forward_hooks :=
      filter (\<lambda>(h', m). h' \<notin> set (h # hs)) (forward_hooks st)\<rparr>"
    unfolding remove_def using f [of "forward_hooks st"] by simp
  finally show ?case .
qed

lemma run_hooks_empty: "run_hooks net to_numpy [] m out results = Inr results"
  by simp

lemma forward_pass_no_hooks: "forward_pass net to_numpy [] calls results = Inr results"
  by (induction calls) auto

text \<open>What a successful pass with hooks does to the dictionary: its keys and its values.\<close>

lemma hooked_names_Nil: "hooked_names net hooks [] = []"
  by (simp add: hooked_names_def)

lemma hooked_names_Cons:
  "hooked_names net hooks ((m, out) # calls) =
     (if m \<in> snd ` set hooks
      then (case distiller_name net m of None \<Rightarrow> [] | Some name \<Rightarrow> [name])
      else []) @ hooked_names net hooks calls"
  unfolding hooked_names_def by simp

lemma set_hooked_names:
  "set (hooked_names net hooks calls) =
     {name. \<exists>m out. (m, out) \<in> set calls \<and> m \<in> snd ` set hooks \<and> distiller_name net m = Some name}"
proof (induction calls)
  case Nil
  then show ?case by (simp add: hooked_names_Nil)
next
  case (Cons c calls)
  obtain m out where c: "c = (m, out)" by (cases c)
  show ?case
  proof (cases "m \<in> snd ` set hooks")
    case False
    then show ?thesis unfolding c hooked_names_Cons using Cons.IH by auto
  next
    case True
    show ?thesis
    proof (cases "distiller_name net m")
      case None
      then show ?thesis unfolding c hooked_names_Cons using Cons.IH True by auto
    next
      case (Some name)
      then show ?thesis unfolding c hooked_names_Cons using Cons.IH True by auto
    qed
  qed
qed

lemma update_entries: "set (AList.update k v al) \<subseteq> insert (k, v) (set al)"
  by (induction al) auto

lemma save_conv_output_Inr:
  "save_conv_output net to_numpy m out results = Inr results' \<Longrightarrow>
     \<exists>name v. distiller_name net m = Some name \<and> to_numpy out = Inr v
        \<and> results' = AList.update name v results"
  by (auto simp: save_conv_output_def split: sum.splits option.splits)

lemma run_hooks_Inr:
  "run_hooks net to_numpy hooks m out results = Inr results' \<Longrightarrow>
     (if m \<in> snd ` set hooks
      then \<exists>name v. distiller_name net m = Some name \<and> to_numpy out = Inr v
             \<and> results' = AList.update name v results
      else results' = results)"
proof (induction hooks arbitrary: results)
  case Nil
  then show ?case by simp
next
  case (Cons hm hooks)
  obtain h m' where hm: "hm = (h, m')" by (cases hm)
  show ?case
  proof (cases "m' = m")
    case False
    then have "run_hooks net to_numpy hooks m out results = Inr results'"
      using Cons.prems hm by simp
    from Cons.IH [OF this] show ?thesis using False hm by auto
  next
    case True
    then obtain r1 where r1: "save_conv_output net to_numpy m out results = Inr r1"
      and rest: "run_hooks net to_numpy hooks m out r1 = Inr results'"
      using Cons.prems hm by (auto split: sum.splits)
    obtain name v where nv: "distiller_name net m = Some name" "to_numpy out = Inr v"
      "r1 = AList.update name v results"
      using save_conv_output_Inr [OF r1] by blast
    show ?thesis
    proof (cases "m \<in> snd ` set hooks")
      case False
      then have "results' = r1" using Cons.IH [OF rest] by simp
      then show ?thesis using nv True hm by simp
    next
      case in_rest: True
      then have "results' = AList.update name v r1"
        using Cons.IH [OF rest] nv by auto
      then show ?thesis using nv True hm by simp
    qed
  qed
qed

lemma forward_pass_keys:
  "forward_pass net to_numpy hooks calls results = Inr results' \<Longrightarrow>
     fst ` set results' = fst ` set results \<union> set (hooked_names net hooks calls)"
proof (induction calls arbitrary: results)
  case Nil
  then show ?case by (simp add: hooked_names_Nil)
next
  case (Cons c calls)
  obtain m out where c: "c = (m, out)" by (cases c)
  obtain r1 where r1: "run_hooks net to_numpy hooks m out results = Inr r1"
    and rest: "forward_pass net to_numpy hooks calls r1 = Inr results'"
    using Cons.prems c by (auto split: sum.splits)
  have step: "fst ` set r1 = fst ` set results
      \<union> set (hooked_names net hooks [(m, out)])"
  proof (cases "m \<in> snd ` set hooks")
    case False
    then show ?thesis using run_hooks_Inr [OF r1]
      by (simp add: hooked_names_Cons hooked_names_Nil)
  next
    case True
    then obtain name v where "distiller_name net m = Some name"
      "r1 = AList.update name v results"
      using run_hooks_Inr [OF r1] by auto
    then show ?thesis using True
      by (simp add: hooked_names_Cons hooked_names_Nil dom_update)
  qed
  have "hooked_names net hooks (c # calls)
      = hooked_names net hooks [(m, out)] @ hooked_names net hooks calls"
    by (simp add: hooked_names_Cons hooked_names_Nil c)
  then show ?case using Cons.IH [OF rest] step by auto
qed

lemma forward_pass_distinct:
  "forward_pass net to_numpy hooks calls results = Inr results' \<Longrightarrow>
     distinct (map fst results) \<Longrightarrow> distinct (map fst results')"
proof (induction calls arbitrary: results)
  case Nil
  then show ?case by simp
next
  case (Cons c calls)
  obtain m out where c: "c = (m, out)" by (cases c)
  obtain r1 where r1: "run_hooks net to_numpy hooks m out results = Inr r1"
    and rest: "forward_pass net to_numpy hooks calls r1 = Inr results'"
    using Cons.prems(1) c by (auto split: sum.splits)
  have "distinct (map fst r1)"
    using run_hooks_Inr [OF r1] Cons.prems(2) by (auto simp: distinct_update split: if_splits)
  then show ?case using Cons.IH [OF rest] by simp
qed

lemma forward_pass_values:
  "forward_pass net to_numpy hooks calls results = Inr results' \<Longrightarrow>
     (name, v) \<in> set results' \<Longrightarrow>
     (name, v) \<in> set results
     \<or> (\<exists>m out. (m, out) \<in> set calls \<and> m \<in> snd ` set hooks
            \<and> distiller_name net m = Some name \<and> to_numpy out = Inr v)"
proof (induction calls arbitrary: results)
  case Nil
  then show ?case by simp
next
  case (Cons c calls)
  obtain m out where c: "c = (m, out)" by (cases c)
  obtain r1 where r1: "run_hooks net to_numpy hooks m out results = Inr r1"
    and rest: "forward_pass net to_numpy hooks calls r1 = Inr results'"
    using Cons.prems(1) c by (auto split: sum.splits)
  from Cons.IH [OF rest Cons.prems(2)]
  show ?case
  proof
    assume in1: "(name, v) \<in> set r1"
    show ?thesis
    proof (cases "m \<in> snd ` set hooks")
      case False
      then show ?thesis using run_hooks_Inr [OF r1] in1 by simp
    next
      case True
      then obtain name' v' where nv: "distiller_name net m = Some name'" "to_numpy out = Inr v'"
        "r1 = AList.update name' v' results"
        using run_hooks_Inr [OF r1] by auto
      then have "(name, v) = (name', v') \<or> (name, v) \<in> set results"
        using in1 update_entries [of name' v' results] by auto
      then show ?thesis using nv True c by auto
    qed
  next
    assume "\<exists>m out. (m, out) \<in> set calls \<and> m \<in> snd ` set hooks
            \<and> distiller_name net m = Some name \<and> to_numpy out = Inr v"
    then show ?thesis by auto
  qed
qed

text \<open>The state a successful capture cell leaves.\<close>

lemma capture_cell_Inr:
  assumes ok: "capture_cell assign to_numpy net0 sample st = Inr (st', n)"
  obtains results where
    "forward_pass (assign net0) to_numpy
        (forward_hooks st @
           zip [next_id st..<next_id st
                  + length (filter (\<lambda>m. distiller_name (assign net0) m \<noteq> None) (modules (assign net0)))]
               (filter (\<lambda>m. distiller_name (assign net0) m \<noteq> None) (modules (assign net0))))
        (fst (run (assign net0) sample)) [] = Inr results"
    and "intermediary_results st' = results"
    and "n = length results"
    and "cb_handles st' = [next_id st..<next_id st
            + length (filter (\<lambda>m. distiller_name (assign net0) m \<noteq> None) (modules (assign net0)))]"
    and "forward_hooks st' =
           filter (\<lambda>(h, m). h \<notin> set (cb_handles st'))
             (forward_hooks st @ zip (cb_handles st')
                (filter (\<lambda>m. distiller_name (assign net0) m \<noteq> None) (modules (assign net0))))"
proof -
  define net where "net = assign net0"
  define named where "named = filter (\<lambda>m. distiller_name net m \<noteq> None) (modules net)"
  define ids where "ids = [next_id st..<next_id st + length named]"
  define st1 where "st1 = st\<lparr>intermediary_results := [], cb_handles := []\<rparr>"
  define st2 where "st2 = fold (register_forward_hook net) (modules net) st1"
  have st2: "st2 = st1\<lparr>forward_hooks := forward_hooks st @ zip ids named,
                         next_id := next_id st + length named,
                         cb_handles := ids\<rparr>"
    unfolding st2_def register_fold by (simp add: Let_def st1_def named_def ids_def)
  from ok obtain predictions st3 where cm: "call_model net to_numpy sample st2 = Inr (predictions, st3)"
    and fin: "st' = fold remove (cb_handles st3) st3" "n = length (intermediary_results st')"
    unfolding capture_cell_def Let_def net_def [symmetric] st1_def [symmetric] st2_def [symmetric]
    by (auto split: sum.splits)
  from cm obtain results where
    fp: "forward_pass net to_numpy (forward_hooks st2) (fst (run net sample)) (intermediary_results st2)
           = Inr results"
    and st3: "st3 = st2\<lparr>intermediary_results := results\<rparr>"
    unfolding call_model_def by (auto split: sum.splits prod.splits)
  have st': "st' = st3\<lparr>forward_hooks := filter (\<lambda>(h, m). h \<notin> set ids) (forward_hooks st3)\<rparr>"
    unfolding fin(1) remove_fold by (simp add: st3 st2)
  show ?thesis
  proof (rule that [of results])
    show "forward_pass (assign net0) to_numpy
        (forward_hooks st @
           zip [next_id st..<next_id st
                  + length (filter (\<lambda>m. distiller_name (assign net0) m \<noteq> None) (modules (assign net0)))]
               (filter (\<lambda>m. distiller_name (assign net0) m \<noteq> None) (modules (assign net0))))
        (fst (run (assign net0) sample)) [] = Inr results"
      using fp by (simp add: st2 st1_def ids_def named_def net_def)
    show r: "intermediary_results st' = results" by (simp add: st' st3)
    show "n = length results" using fin(2) r by simp
    show c: "cb_handles st' = [next_id st..<next_id st
            + length (filter (\<lambda>m. distiller_name (assign net0) m \<noteq> None) (modules (assign net0)))]"
      by (simp add: st' st3 st2 ids_def named_def net_def)
    show "forward_hooks st' =
           filter (\<lambda>(h, m). h \<notin> set (cb_handles st'))
             (forward_hooks st @ zip (cb_handles st')
                (filter (\<lambda>m. distiller_name (assign net0) m \<noteq> None) (modules (assign net0))))"
      unfolding c by (simp add: st' st3 st2 ids_def named_def net_def)
  qed
qed

lemma filter_fresh_hooks:
  assumes fresh: "\<forall>(h, m) \<in> set old. h < n"
  shows "filter (\<lambda>(h, m). h \<notin> set [n..<n + length named]) (old @ zip [n..<n + length named] named) = old"
proof -
  have "filter (\<lambda>(h, m). h \<notin> set [n..<n + length named]) old = old"
    using fresh by (intro filter_True) auto
  moreover have "filter (\<lambda>(h, m). h \<notin> set [n..<n + length named]) (zip [n..<n + length named] named) = []"
    by (auto simp: filter_empty_conv dest: set_zip_leftD)
  ultimately show ?thesis by simp
qed

lemma snd_set_zip_ids:
  "snd ` set (zip [n..<n + length named] named) = set named"
proof -
  have "map snd (zip [n..<n + length named] named) = named"
    by (simp add: map_snd_zip)
  then show ?thesis by (metis set_map)
qed

lemma demo_capture:
  "capture_cell (\<lambda>net. net) Inr demo_net () demo_state =
     Inr (\<lparr>intermediary_results = [(''conv1'', 10), (''relu'', 40), ('''', 50)],
           cb_handles = [5, 6, 7], forward_hooks = [], next_id = 8\<rparr>, 3)"
  by (simp add: capture_cell_def demo_net_def demo_state_def register_forward_hook_def
      call_model_def save_conv_output_def remove_def Let_def)



text \<open>
  Claim C10 as stated, that after the capture cell every hook registered on the model has
  been removed, the handle list being drained, so that a later forward pass leaves the
  dictionary unchanged, fails. A run of the cell that raises in its forward pass leaves
  the hooks it registered, here \<open>(5, 1)\<close> and \<open>(6, 0)\<close>, on the model. The next run of
  the cell completes and removes only its own hooks: the two earlier hooks are still
  registered, and a later forward pass overwrites the dictionary. The handle list is not
  emptied either, after a run from a fresh state it still holds the handles 5 and 6.
\<close>

theorem hooks_left_counterexample:
  "before_pass (\<lambda>net. net) echo_net fresh_state =
     \<lparr>intermediary_results = [], cb_handles = [5, 6],
      forward_hooks = [(5, 1), (6, 0)], next_id = 7\<rparr>
   \<and> capture_cell (\<lambda>net. net) Inr echo_net 10
        \<lparr>intermediary_results = [], cb_handles = [5, 6],
         forward_hooks = [(5, 1), (6, 0)], next_id = 7\<rparr>
       = Inr (\<lparr>intermediary_results = [(''conv1'', 11), ('''', 10)], cb_handles = [7, 8],
               forward_hooks = [(5, 1), (6, 0)], next_id = 9\<rparr>, 2)
   \<and> call_model echo_net Inr 20
        \<lparr>intermediary_results = [(''conv1'', 11), ('''', 10)], cb_handles = [7, 8],
         forward_hooks = [(5, 1), (6, 0)], next_id = 9\<rparr>
       = Inr (20, \<lparr>intermediary_results = [(''conv1'', 21), ('''', 20)], cb_handles = [7, 8],
                   forward_hooks = [(5, 1), (6, 0)], next_id = 9\<rparr>)
   \<and> capture_cell (\<lambda>net. net) Inr echo_net 10 fresh_state
       = Inr (\<lparr>intermediary_results = [(''conv1'', 11), ('''', 10)], cb_handles = [5, 6],
               forward_hooks = [], next_id = 7\<rparr>, 2)"
  by (simp add: before_pass_def capture_cell_def call_model_def echo_net_def fresh_state_def
      register_forward_hook_def save_conv_output_def remove_def Let_def)

text \<open>
  Claim C10, amended. Suppose the capture cell completes, started in a state whose hook
  identifiers are all older than \<open>next_id\<close>. Then every hook the cell itself registered
  has been removed: the table of hooks is what it was before the cell, and no handle in
  \<open>cb_handles\<close> has a hook left; \<open>cb_handles\<close> is not emptied, it holds the handles of
  the cell. If no hook was registered before the cell, any later forward pass of the model
  leaves \<open>intermediary_results\<close> unchanged, and the dictionary holds exactly the names of
  the named modules that were called during the capture pass, each once; the number
  printed is its length, and it is the number of those modules when names are not shared.
\<close>

theorem capture_cell_removes_hooks:
  assumes fresh: "\<forall>(h, m) \<in> set (forward_hooks st). h < next_id st"
    and ok: "capture_cell assign to_numpy net0 sample st = Inr (st', n)"
  shows "forward_hooks st' = forward_hooks st
       \<and> (\<forall>h \<in> set (cb_handles st'). h \<notin> fst ` set (forward_hooks st'))
       \<and> (forward_hooks st = [] \<longrightarrow>
            (\<forall>sample' predictions st''.
               call_model (assign net0) to_numpy sample' st' = Inr (predictions, st'') \<longrightarrow>
               intermediary_results st'' = intermediary_results st'))
       \<and> (forward_hooks st = [] \<longrightarrow>
            fst ` set (intermediary_results st') =
              {name. \<exists>m out. (m, out) \<in> set (fst (run (assign net0) sample))
                  \<and> m \<in> set (modules (assign net0))
                  \<and> distiller_name (assign net0) m = Some name})
       \<and> distinct (map fst (intermediary_results st'))
       \<and> n = length (intermediary_results st')
       \<and> cb_handles st' =
           [next_id st..<next_id st
              + length (filter (\<lambda>m. distiller_name (assign net0) m \<noteq> None)
                         (modules (assign net0)))]
       \<and> (forward_hooks st = []
            \<and> inj_on (distiller_name (assign net0))
                 {m \<in> set (modules (assign net0)). distiller_name (assign net0) m \<noteq> None} \<longrightarrow>
            n = card {m \<in> set (modules (assign net0)).
                        distiller_name (assign net0) m \<noteq> None
                        \<and> m \<in> fst ` set (fst (run (assign net0) sample))})"
proof -
  define net where "net = assign net0"
  define named where "named = filter (\<lambda>m. distiller_name net m \<noteq> None) (modules net)"
  define ids where "ids = [next_id st..<next_id st + length named]"
  define calls where "calls = fst (run net sample)"
  from capture_cell_Inr [OF ok] obtain results where
    fp: "forward_pass net to_numpy (forward_hooks st @ zip ids named) calls [] = Inr results"
    and res: "intermediary_results st' = results"
    and n: "n = length results"
    and cb: "cb_handles st' = ids"
    and hooks: "forward_hooks st' =
        filter (\<lambda>(h, m). h \<notin> set ids) (forward_hooks st @ zip ids named)"
    unfolding net_def [symmetric] named_def [symmetric] ids_def [symmetric] calls_def [symmetric]
    by metis
  have frame: "forward_hooks st' = forward_hooks st"
    unfolding hooks ids_def using filter_fresh_hooks [OF fresh] by simp
  have dead: "\<forall>h \<in> set (cb_handles st'). h \<notin> fst ` set (forward_hooks st')"
    unfolding cb hooks by auto
  have later: "intermediary_results st'' = intermediary_results st'"
    if "forward_hooks st = []"
      and "call_model net to_numpy sample' st' = Inr (predictions, st'')"
    for sample' predictions st''
    using that frame
    by (auto simp: call_model_def forward_pass_no_hooks split: prod.splits sum.splits)
  have dist: "distinct (map fst results)"
    using forward_pass_distinct [OF fp] by simp
  have keys: "fst ` set results =
      {name. \<exists>m out. (m, out) \<in> set calls \<and> m \<in> set (modules net)
          \<and> distiller_name net m = Some name}"
    if "forward_hooks st = []"
  proof -
    have "snd ` set (zip ids named) = set named"
      unfolding ids_def by (rule snd_set_zip_ids)
    then have "fst ` set results =
      {name. \<exists>m out. (m, out) \<in> set calls \<and> m \<in> set named \<and> distiller_name net m = Some name}"
      using forward_pass_keys [OF fp] that by (simp add: set_hooked_names)
    then show ?thesis by (auto simp: named_def)
  qed
  have count: "n = card {m \<in> set (modules net). distiller_name net m \<noteq> None
                            \<and> m \<in> fst ` set calls}"
    if nohooks: "forward_hooks st = []"
      and inj: "inj_on (distiller_name net) {m \<in> set (modules net). distiller_name net m \<noteq> None}"
  proof -
    let ?M = "{m \<in> set (modules net). distiller_name net m \<noteq> None \<and> m \<in> fst ` set calls}"
    have sub: "?M \<subseteq> {m \<in> set (modules net). distiller_name net m \<noteq> None}" by auto
    have inj': "inj_on (\<lambda>m. the (distiller_name net m)) ?M"
    proof (rule inj_onI)
      fix x y assume x: "x \<in> ?M" and y: "y \<in> ?M"
        and eq: "the (distiller_name net x) = the (distiller_name net y)"
      then have "distiller_name net x = distiller_name net y" by auto
      then show "x = y" using inj x y sub by (meson inj_onD subsetD)
    qed
    have img: "(\<lambda>m. the (distiller_name net m)) ` ?M = fst ` set results"
      unfolding keys [OF nohooks] by (auto simp: image_iff) force+
    have "n = card (fst ` set results)"
      using dist n by (metis distinct_card length_map set_map)
    also have "\<dots> = card ?M"
      unfolding img [symmetric] by (rule card_image [OF inj'])
    finally show ?thesis .
  qed
  have kept: "cb_handles st' =
      [next_id st..<next_id st
         + length (filter (\<lambda>m. distiller_name net m \<noteq> None) (modules net))]"
    using cb by (simp add: ids_def named_def)
  show ?thesis
    using frame dead later dist keys count kept
    unfolding net_def [symmetric] calls_def [symmetric] res n
    by blast
qed

text \<open>
  On the example network, modules 0, 1 and 2 are named and called, module 3 is called but
  has no name; three entries are captured and the three handles are removed.
\<close>

theorem capture_cell_removes_hooks_witness:
  "capture_cell (\<lambda>net. net) Inr demo_net () demo_state =
       Inr (\<lparr>intermediary_results = [(''conv1'', 10), (''relu'', 40), ('''', 50)],
             cb_handles = [5, 6, 7], forward_hooks = [], next_id = 8\<rparr>, 3)
   \<and> forward_hooks demo_state = []
   \<and> inj_on (distiller_name demo_net)
        {m \<in> set (modules demo_net). distiller_name demo_net m \<noteq> None}
   \<and> 3 = card {m \<in> set (modules demo_net). distiller_name demo_net m \<noteq> None
                  \<and> m \<in> fst ` set (fst (run demo_net ()))}"
proof -
  have fresh: "\<forall>(h, m) \<in> set (forward_hooks demo_state). h < next_id demo_state"
    by (simp add: demo_state_def)
  have nohooks: "forward_hooks demo_state = []"
    by (simp add: demo_state_def)
  have inj: "inj_on (distiller_name demo_net)
        {m \<in> set (modules demo_net). distiller_name demo_net m \<noteq> None}"
    by (auto simp: inj_on_def demo_net_def split: if_splits)
  note inst = capture_cell_removes_hooks [OF fresh demo_capture]
  then have "3 = card {m \<in> set (modules demo_net). distiller_name demo_net m \<noteq> None
                  \<and> m \<in> fst ` set (fst (run demo_net ()))}"
    using nohooks inj by blast
  then show ?thesis using demo_capture nohooks inj by blast
qed

section \<open>Properties of saving and loading\<close>

text \<open>
  Claim C4. After a successful capture on a model without earlier hooks, the keys of the
  mapping that is written are exactly the names of the named modules whose hooks fired,
  each value is the converted output of such a module, and, the serialiser reading back
  what it wrote, loading the file written by the dump cell yields the mapping that was
  written.
\<close>

theorem feature_maps_pickle_roundtrip:
  assumes nohooks: "forward_hooks st = []"
    and ok: "capture_cell assign to_numpy net0 sample st = Inr (st', n)"
    and contract: "\<forall>d. loads pickle (dumps pickle d) = Inr d"
  shows "fst ` set (intermediary_results st') =
           {name. \<exists>m out. (m, out) \<in> set (fst (run (assign net0) sample))
               \<and> m \<in> set (modules (assign net0))
               \<and> distiller_name (assign net0) m = Some name}
       \<and> (\<forall>(name, v) \<in> set (intermediary_results st').
            \<exists>m out. (m, out) \<in> set (fst (run (assign net0) sample))
               \<and> distiller_name (assign net0) m = Some name \<and> to_numpy out = Inr v)
       \<and> load_cell pickle (dump_cell pickle (intermediary_results st') files)
           = Inr (intermediary_results st')"
proof -
  define net where "net = assign net0"
  define named where "named = filter (\<lambda>m. distiller_name net m \<noteq> None) (modules net)"
  define ids where "ids = [next_id st..<next_id st + length named]"
  define calls where "calls = fst (run net sample)"
  from capture_cell_Inr [OF ok] obtain results where
    fp: "forward_pass net to_numpy (forward_hooks st @ zip ids named) calls [] = Inr results"
    and res: "intermediary_results st' = results"
    unfolding net_def [symmetric] named_def [symmetric] ids_def [symmetric] calls_def [symmetric]
    by metis
  have "snd ` set (zip ids named) = set named"
    unfolding ids_def by (rule snd_set_zip_ids)
  then have "fst ` set results =
    {name. \<exists>m out. (m, out) \<in> set calls \<and> m \<in> set named \<and> distiller_name net m = Some name}"
    using forward_pass_keys [OF fp] nohooks by (simp add: set_hooked_names)
  then have keys: "fst ` set results =
      {name. \<exists>m out. (m, out) \<in> set calls \<and> m \<in> set (modules net)
          \<and> distiller_name net m = Some name}"
    by (auto simp: named_def)
  have vals: "\<exists>m out. (m, out) \<in> set calls \<and> distiller_name net m = Some name
                \<and> to_numpy out = Inr v"
    if "(name, v) \<in> set results" for name v
    using forward_pass_values [OF fp that] by auto
  have rt: "load_cell pickle (dump_cell pickle results files) = Inr results"
    using contract by (simp add: load_cell_def dump_cell_def)
  show ?thesis
    using keys vals rt unfolding net_def [symmetric] calls_def [symmetric] res by blast
qed

text \<open>The example capture, written and read back with the serialiser that stores as is.\<close>

theorem feature_maps_pickle_roundtrip_witness:
  "forward_hooks demo_state = []
   \<and> capture_cell (\<lambda>net. net) Inr demo_net () demo_state =
       Inr (\<lparr>intermediary_results = [(''conv1'', 10), (''relu'', 40), ('''', 50)],
             cb_handles = [5, 6, 7], forward_hooks = [], next_id = 8\<rparr>, 3)
   \<and> loads demo_pickle (dumps demo_pickle [(''conv1'', 10), (''relu'', 40), ('''', 50)])
       = Inr [(''conv1'', 10), (''relu'', 40), ('''', 50)]
   \<and> load_cell demo_pickle
        (dump_cell demo_pickle [(''conv1'', 10), (''relu'', 40), ('''', 50)] Map.empty)
       = Inr [(''conv1'', 10), (''relu'', 40), ('''', 50)]"
proof -
  have nohooks: "forward_hooks demo_state = []"
    by (simp add: demo_state_def)
  have contract: "\<forall>d. loads demo_pickle (dumps demo_pickle d) = Inr d"
    by (simp add: demo_pickle_def)
  show ?thesis
    using feature_maps_pickle_roundtrip [OF nohooks demo_capture contract, of Map.empty]
      nohooks demo_capture contract
    by simp
qed

section \<open>Exceptions\<close>







section \<open>Calls per cell\<close>

text \<open>
  Claim C5 as stated, that no cell invokes a pipeline step more than once, fails: the
  batching cell of the LSTM notebook calls \<open>batchify\<close> three times and the cell that
  checks the conversion runs two forward passes.
\<close>

theorem steps_repeat_within_cells_counterexample:
  "quantize_lstm False ! 2 = [Batchify, Batchify, Batchify]
   \<and> count_list (quantize_lstm False ! 2) Batchify = 3
   \<and> \<not> count_list (quantize_lstm False ! 2) Batchify \<le> 1
   \<and> count_list (quantize_lstm False ! 6) Forward = 2
   \<and> \<not> count_list (quantize_lstm False ! 6) Forward \<le> 1"
  by (simp add: quantize_lstm_def)

text \<open>
  Claim C5, amended. A cell may invoke a step several times: the batching cell calls
  \<open>batchify\<close> exactly three times and the cell that checks the conversion runs exactly
  two forward passes; every cell calls \<open>evaluate\<close> at most once; and one call of
  \<open>evaluate\<close> that returns has run one forward pass for each batch, that is
  \<open>(rows + 34) div 35\<close> passes, the counting leaving its result as it is.
\<close>

theorem steps_per_cell:
  "count_list (quantize_lstm stats_file_exists ! 2) Batchify = 3
   \<and> count_list (quantize_lstm stats_file_exists ! 6) Forward = 2
   \<and> list_all (\<lambda>cell. length (filter is_evaluate cell) \<le> 1) (quantize_lstm stats_file_exists)
   \<and> (evaluate (counting model) ntokens src (w, 0) = Inr (loss, (w', calls)) \<longrightarrow>
        calls = (nrows src + 34) div 35
        \<and> evaluate model ntokens src w = Inr (loss, w'))
   \<and> (evaluate (counting model) ntokens src (w, 0) = Inl e \<longrightarrow>
        evaluate model ntokens src w = Inl e)"
proof -
  have a: "count_list (quantize_lstm stats_file_exists ! 2) Batchify = 3"
    by (simp add: quantize_lstm_def)
  have b: "count_list (quantize_lstm stats_file_exists ! 6) Forward = 2"
    by (simp add: quantize_lstm_def)
  have c: "list_all (\<lambda>cell. length (filter is_evaluate cell) \<le> 1) (quantize_lstm stats_file_exists)"
    by (simp add: quantize_lstm_def is_evaluate_def)
  have d: "calls = (nrows src + 34) div 35 \<and> evaluate model ntokens src w = Inr (loss, w')"
    if "evaluate (counting model) ntokens src (w, 0) = Inr (loss, (w', calls))"
    using that unfolding evaluate_counting
    by (auto simp: length_range_from0 split: sum.splits)
  have e: "evaluate model ntokens src w = Inl e"
    if "evaluate (counting model) ntokens src (w, 0) = Inl e"
    using that unfolding evaluate_counting by (auto split: sum.splits)
  show ?thesis using a b c d e by blast
qed

text \<open>On the source of 37 rows \<open>evaluate\<close> runs two forward passes.\<close>

theorem steps_per_cell_witness:
  "evaluate (counting demo_model) 5 demo_source ((), 0) = Inr (73 / 37, ((), 2))
   \<and> (2::nat) = (nrows demo_source + 34) div 35
   \<and> evaluate demo_model 5 demo_source () = Inr (73 / 37, ())"
proof -
  have r: "evaluate (counting demo_model) 5 demo_source ((), 0) = Inr (73 / 37, ((), 2))"
    unfolding evaluate_counting demo_eval by (simp add: demo_range)
  show ?thesis
    using steps_per_cell [of False demo_model 5 demo_source "()" "73 / 37" "()" 2] r
    by blast
qed

section \<open>Order of the stages\<close>



end
